theory Spec2Isabelle
  imports Main "HOL-Library.Multiset"
begin

section \<open>ClipBox: the clipboard history engine\<close>

text \<open>
  The development follows the newest revision of the front end (the one with the
  favourites filter and the configurable global shortcut). The two older revisions have
  the same \<^verbatim>\<open>addToHistory\<close> and \<^verbatim>\<open>moveItemToTop\<close>, no \<^verbatim>\<open>is_favorite\<close> field, and a
  \<^verbatim>\<open>render\<close> that reads the history without reordering it.
\<close>

subsection \<open>Strings\<close>

text \<open>
  A JavaScript string is a sequence of code units. The model uses \<^typ>\<open>string\<close>, one
  \<^typ>\<open>char\<close> per code unit, which covers the code units below 256. In that range the
  characters removed by \<^verbatim>\<open>String.prototype.trim\<close> (ECMAScript WhiteSpace and LineTerminator)
  are TAB, LF, VT, FF, CR, SPACE and NBSP.
\<close>

definition isWhiteSpace :: "char \<Rightarrow> bool" where
  "isWhiteSpace c \<longleftrightarrow>
     c = CHR 0x09 \<or> c = CHR 0x0A \<or> c = CHR 0x0B \<or> c = CHR 0x0C \<or> c = CHR 0x0D
     \<or> c = CHR 0x20 \<or> c = CHR 0xA0"

definition trim :: "string \<Rightarrow> string" where
  "trim s = rev (dropWhile isWhiteSpace (rev (dropWhile isWhiteSpace s)))"

text \<open>\<^verbatim>\<open>s.startsWith(p)\<close>\<close>

definition startsWith :: "string \<Rightarrow> string \<Rightarrow> bool" where
  "startsWith s p \<longleftrightarrow> take (length p) s = p"

text \<open>\<^verbatim>\<open>s.includes(p)\<close>: \<open>p\<close> occurs at some position of \<open>s\<close>.\<close>

fun includesStr :: "string \<Rightarrow> string \<Rightarrow> bool" where
  "includesStr [] p = (p = [])"
| "includesStr (c # cs) p = (startsWith (c # cs) p \<or> includesStr cs p)"

text \<open>\<^verbatim>\<open>s.substring(0, n)\<close>\<close>

definition substring0 :: "string \<Rightarrow> nat \<Rightarrow> string" where
  "substring0 s n = take n s"

text \<open>
  \<^verbatim>\<open>s.replace(pat, rep)\<close> with a string pattern replaces the first occurrence only.
\<close>

fun replaceFirst :: "string \<Rightarrow> string \<Rightarrow> string \<Rightarrow> string" where
  "replaceFirst [] pat rep = (if pat = [] then rep else [])"
| "replaceFirst (c # cs) pat rep =
     (if startsWith (c # cs) pat then rep @ drop (length pat) (c # cs)
      else c # replaceFirst cs pat rep)"

text \<open>
  \<^verbatim>\<open>Date.now().toString()\<close>: the decimal rendering of an integer (JavaScript switches to
  exponent notation only from \<open>10\<^sup>2\<^sup>1\<close> on, far beyond any clock reading).
\<close>

definition digitChar :: "nat \<Rightarrow> char" where
  "digitChar d = ''0123456789'' ! d"

fun digits :: "nat \<Rightarrow> string" where
  "digits n = (if n < 10 then [digitChar n] else digits (n div 10) @ [digitChar (n mod 10)])"

declare digits.simps [simp del]

definition toString :: "int \<Rightarrow> string" where
  "toString i = (if i < 0 then CHR ''-'' # digits (nat (- i)) else digits (nat i))"

subsection \<open>Data model\<close>

datatype item_kind = Text | Image

text \<open>
  \<^verbatim>\<open>interface ClipboardItem\<close>. The field \<^verbatim>\<open>id\<close> is \<open>item_id\<close> here (\<open>id\<close> is the identity
  function of HOL); the optional \<^verbatim>\<open>image_path\<close> is an option.
\<close>

record ClipboardItem =
  item_id :: string
  content :: string
  timestamp :: int
  item_type :: item_kind
  image_path :: "string option"
  is_favorite :: bool

datatype view_filter = FilterAll | FilterFavorites

text \<open>
  The fields of \<^verbatim>\<open>class ClipBox\<close> that the history operations read or write. The DOM
  handles are left out: nothing below depends on them.
\<close>

record ClipBox =
  clipboardHistory :: "ClipboardItem list"
  maxHistorySize :: nat
  currentFilter :: view_filter

subsection \<open>The view\<close>

text \<open>
  \<^verbatim>\<open>xs.sort((a, b) => b.timestamp - a.timestamp)\<close>. \<^verbatim>\<open>Array.prototype.sort\<close> is stable
  and, for this comparator, orders by timestamp descending; the stable sorted arrangement
  of a list is unique, so insertion sort on the negated key computes it.
\<close>

definition sortByTimestampDesc :: "ClipboardItem list \<Rightarrow> ClipboardItem list" where
  "sortByTimestampDesc xs = sort_key (\<lambda>item. - timestamp item) xs"

text \<open>
  \<^verbatim>\<open>getFilteredItems\<close>. In the favourites branch \<^verbatim>\<open>filter\<close> builds a new array, which is
  then sorted; the history is untouched. In the other branch \<^verbatim>\<open>sort\<close> is called on
  \<^verbatim>\<open>this.clipboardHistory\<close> itself: it sorts that array in place and returns it. The
  function therefore returns the list shown together with the state it leaves.
\<close>

definition getFilteredItems :: "ClipBox \<Rightarrow> ClipboardItem list \<times> ClipBox" where
  "getFilteredItems s =
     (if currentFilter s = FilterFavorites
      then (sortByTimestampDesc (filter is_favorite (clipboardHistory s)), s)
      else (let sorted = sortByTimestampDesc (clipboardHistory s)
            in (sorted, s\<lparr>clipboardHistory := sorted\<rparr>)))"

text \<open>
  \<^verbatim>\<open>render\<close> calls \<^verbatim>\<open>getFilteredItems\<close> and writes the result to the DOM; its only effect
  on the state is the one of \<^verbatim>\<open>getFilteredItems\<close>.
\<close>

definition render :: "ClipBox \<Rightarrow> ClipBox" where
  "render s = snd (getFilteredItems s)"

text \<open>\<^verbatim>\<open>setFilter\<close>\<close>

definition setFilter :: "view_filter \<Rightarrow> ClipBox \<Rightarrow> ClipBox" where
  "setFilter f s = render (s\<lparr>currentFilter := f\<rparr>)"

subsection \<open>Ingestion\<close>

definition isBase64Image :: "string \<Rightarrow> bool" where
  "isBase64Image c \<longleftrightarrow> startsWith c ''data:image/'' \<and> includesStr c ''base64,''"

text \<open>
  The duplicate scan of \<^verbatim>\<open>addToHistory\<close>: the \<^verbatim>\<open>for\<close> loop over the history, \<open>True\<close>
  when one of its two \<^verbatim>\<open>return\<close> statements is reached.
\<close>

fun scanForDuplicate :: "string \<Rightarrow> ClipboardItem list \<Rightarrow> bool" where
  "scanForDuplicate c [] = False"
| "scanForDuplicate c (item # rest) =
     (if isBase64Image c \<and> isBase64Image (content item)
      then (if substring0 c 200 = substring0 (content item) 200 then True
            else scanForDuplicate c rest)
      else if content item = c then True
      else scanForDuplicate c rest)"

text \<open>
  The object literal \<^verbatim>\<open>newItem\<close>. \<^verbatim>\<open>Date.now()\<close> is read twice, once for the id and once
  for the timestamp; the two readings are the parameters \<open>now_id\<close> and \<open>now_ts\<close>.
\<close>

definition newItem :: "string \<Rightarrow> int \<Rightarrow> int \<Rightarrow> ClipboardItem" where
  "newItem c now_id now_ts =
     \<lparr> item_id = toString now_id,
       content = trim c,
       timestamp = now_ts,
       item_type = (if isBase64Image c then Image else Text),
       image_path = (if isBase64Image c then Some c else None),
       is_favorite = False \<rparr>"

text \<open>
  \<^verbatim>\<open>addToHistory\<close>. \<^verbatim>\<open>saveHistory\<close> hands the history to the backend and catches its own
  errors; it does not change the state modelled here.
\<close>

definition addToHistory :: "string \<Rightarrow> int \<Rightarrow> int \<Rightarrow> ClipBox \<Rightarrow> ClipBox" where
  "addToHistory c now_id now_ts s =
     (if c = [] \<or> trim c = [] then s
      else if scanForDuplicate c (clipboardHistory s) then s
      else
        let unshifted = newItem c now_id now_ts # clipboardHistory s;
            limited = (if length unshifted > maxHistorySize s
                       then take (maxHistorySize s) unshifted else unshifted)
        in render (s\<lparr>clipboardHistory := limited\<rparr>))"

text \<open>A run of clipboard events, each with its content and its two clock readings.\<close>

fun ingestAll :: "(string \<times> int \<times> int) list \<Rightarrow> ClipBox \<Rightarrow> ClipBox" where
  "ingestAll [] s = s"
| "ingestAll ((c, now_id, now_ts) # rest) s = ingestAll rest (addToHistory c now_id now_ts s)"

subsection \<open>Promotion\<close>

text \<open>\<^verbatim>\<open>Array.prototype.findIndex\<close>: the first index that satisfies \<open>P\<close>, or \<open>-1\<close>.\<close>

fun findIndex :: "('a \<Rightarrow> bool) \<Rightarrow> 'a list \<Rightarrow> int" where
  "findIndex P [] = - 1"
| "findIndex P (x # xs) =
     (if P x then 0 else (let r = findIndex P xs in if r < 0 then - 1 else r + 1))"

text \<open>\<^verbatim>\<open>xs.splice(index, 1)\<close> for an index inside the array.\<close>

definition splice1 :: "nat \<Rightarrow> 'a list \<Rightarrow> 'a list" where
  "splice1 i xs = take i xs @ drop (Suc i) xs"

text \<open>\<^verbatim>\<open>moveItemToTop\<close>; \<open>index > 0\<close> implies that \<open>index\<close> is inside the array.\<close>

definition moveItemToTop :: "string \<Rightarrow> ClipBox \<Rightarrow> ClipBox" where
  "moveItemToTop ident s =
     (if ident = [] then s
      else
        let index = findIndex (\<lambda>item. item_id item = ident) (clipboardHistory s)
        in if index > 0
           then
             let item = clipboardHistory s ! nat index;
                 spliced = splice1 (nat index) (clipboardHistory s);
                 unshifted = item # spliced
             in render (s\<lparr>clipboardHistory := unshifted\<rparr>)
           else s)"

subsection \<open>The global shortcut\<close>

text \<open>
  The shortcut methods talk to three things outside the class: the global-shortcut plugin
  (\<^verbatim>\<open>register\<close>, \<^verbatim>\<open>unregister\<close>), the local-storage slot \<^verbatim>\<open>clipboxShortcut\<close> and the
  console. \<open>Hotkeys\<close> holds the field \<^verbatim>\<open>shortcutKey\<close> of the class together with what
  these three hold: the keys the operating system has registered for the application, the
  content of the slot, and the errors written with \<^verbatim>\<open>console.error\<close> (newest first).
\<close>

datatype log_event =
    UnregisterFailed string
  | RegisterFailed string
  | SaveShortcutFailed

record Hotkeys =
  shortcutKey :: string
  storedShortcut :: "string option"
  registered :: "string set"
  console :: "log_event list"

text \<open>
  Whether a call of the plugin fails is decided outside the program; it is a parameter,
  one predicate per plugin function, telling for which keys the call is refused.
\<close>

record Platform =
  registerFails :: "string \<Rightarrow> bool"
  unregisterFails :: "string \<Rightarrow> bool"

datatype thrown = PluginError

text \<open>
  The plugin functions: a refused call throws (\<open>Inl\<close>) and changes nothing; an accepted
  one updates the registrations. The callback passed to \<^verbatim>\<open>register\<close> is not part of the
  state.
\<close>

definition unregister :: "Platform \<Rightarrow> string \<Rightarrow> Hotkeys \<Rightarrow> (thrown + unit) \<times> Hotkeys" where
  "unregister env key h =
     (if unregisterFails env key then (Inl PluginError, h)
      else (Inr (), h\<lparr>registered := registered h - {key}\<rparr>))"

definition register :: "Platform \<Rightarrow> string \<Rightarrow> Hotkeys \<Rightarrow> (thrown + unit) \<times> Hotkeys" where
  "register env key h =
     (if registerFails env key then (Inl PluginError, h)
      else (Inr (), h\<lparr>registered := insert key (registered h)\<rparr>))"

text \<open>\<^verbatim>\<open>unregisterGlobalShortcut\<close>: the \<^verbatim>\<open>catch\<close> logs the error and the function returns.\<close>

definition unregisterGlobalShortcut ::
  "Platform \<Rightarrow> string \<Rightarrow> Hotkeys \<Rightarrow> (thrown + unit) \<times> Hotkeys" where
  "unregisterGlobalShortcut env key h =
     (case unregister env key h of
        (Inr u, h1) \<Rightarrow> (Inr (), h1)
      | (Inl e, h1) \<Rightarrow> (Inr (), h1\<lparr>console := UnregisterFailed key # console h1\<rparr>))"

text \<open>
  \<^verbatim>\<open>registerGlobalShortcut\<close>: the inner \<^verbatim>\<open>try\<close> ignores a failing \<^verbatim>\<open>unregister\<close>; the outer
  \<^verbatim>\<open>catch\<close> logs a failing \<^verbatim>\<open>register\<close> and the function returns.
\<close>

definition registerGlobalShortcut ::
  "Platform \<Rightarrow> string \<Rightarrow> Hotkeys \<Rightarrow> (thrown + unit) \<times> Hotkeys" where
  "registerGlobalShortcut env key h =
     (let h1 = snd (unregister env key h)
      in case register env key h1 of
           (Inr u, h2) \<Rightarrow> (Inr (), h2)
         | (Inl e, h2) \<Rightarrow> (Inr (), h2\<lparr>console := RegisterFailed key # console h2\<rparr>))"

text \<open>
  \<^verbatim>\<open>saveShortcutKey\<close>. The 100 ms pause after the old key is unregistered has no effect on
  the state. The assignment to \<^verbatim>\<open>this.shortcutKey\<close> is reached whenever
  \<^verbatim>\<open>registerGlobalShortcut\<close> returns; the \<^verbatim>\<open>catch\<close> is reached when it throws.
\<close>

definition saveShortcutKey ::
  "Platform \<Rightarrow> string \<Rightarrow> Hotkeys \<Rightarrow> (thrown + unit) \<times> Hotkeys" where
  "saveShortcutKey env key h =
     (let h1 = (if shortcutKey h \<noteq> [] \<and> shortcutKey h \<noteq> key
                then (case unregisterGlobalShortcut env (shortcutKey h) h of
                        (Inr u, h') \<Rightarrow> h'
                      | (Inl e, h') \<Rightarrow> h'\<lparr>console := UnregisterFailed (shortcutKey h) # console h'\<rparr>)
                else h);
          fixedKey = replaceFirst key ''Meta'' ''Cmd'';
          h2 = h1\<lparr>storedShortcut := Some fixedKey\<rparr>
      in case registerGlobalShortcut env fixedKey h2 of
           (Inr u, h3) \<Rightarrow> (Inr (), h3\<lparr>shortcutKey := fixedKey\<rparr>)
         | (Inl e, h3) \<Rightarrow> (Inr (), h3\<lparr>console := SaveShortcutFailed # console h3\<rparr>))"

subsection \<open>Example states\<close>

text \<open>The state after start-up with nothing loaded.\<close>

definition initialBox :: ClipBox where
  "initialBox = \<lparr> clipboardHistory = [], maxHistorySize = 100, currentFilter = FilterAll \<rparr>"

text \<open>Two entries: \<open>entryNew\<close> was captured after \<open>entryOld\<close>; \<open>entryOld\<close> is a favourite.\<close>

definition entryNew :: ClipboardItem where
  "entryNew = \<lparr> item_id = ''2'', content = ''new'', timestamp = 2, item_type = Text,
                 image_path = None, is_favorite = False \<rparr>"

definition entryOld :: ClipboardItem where
  "entryOld = \<lparr> item_id = ''1'', content = ''old'', timestamp = 1, item_type = Text,
                 image_path = None, is_favorite = True \<rparr>"

definition entryMid :: ClipboardItem where
  "entryMid = \<lparr> item_id = ''15'', content = ''mid'', timestamp = 15, item_type = Text,
                 image_path = None, is_favorite = True \<rparr>"

definition boxOf :: "ClipboardItem list \<Rightarrow> view_filter \<Rightarrow> ClipBox" where
  "boxOf xs f = \<lparr> clipboardHistory = xs, maxHistorySize = 100, currentFilter = f \<rparr>"

text \<open>A platform that accepts every call, and one that refuses to register \<open>Ctrl+Alt+c\<close>.\<close>

definition platformOk :: Platform where
  "platformOk = \<lparr> registerFails = (\<lambda>k. False), unregisterFails = (\<lambda>k. False) \<rparr>"

definition platformRefusing :: Platform where
  "platformRefusing =
     \<lparr> registerFails = (\<lambda>k. k = ''Ctrl+Alt+c''), unregisterFails = (\<lambda>k. False) \<rparr>"

definition boundToV :: Hotkeys where
  "boundToV = \<lparr> shortcutKey = ''Ctrl+Alt+v'', storedShortcut = Some ''Ctrl+Alt+v'',
                 registered = {''Ctrl+Alt+v''}, console = [] \<rparr>"

section \<open>Properties of the string functions\<close>

text \<open>The equations that run the history operations on concrete inputs.\<close>

lemmas run_simps =
  initialBox_def boxOf_def entryNew_def entryOld_def entryMid_def
  addToHistory_def moveItemToTop_def splice1_def render_def getFilteredItems_def Let_def
  sortByTimestampDesc_def newItem_def substring0_def
  trim_def isWhiteSpace_def isBase64Image_def startsWith_def
  toString_def digits.simps digitChar_def

lemma digitChar_inj: "a < 10 \<Longrightarrow> b < 10 \<Longrightarrow> digitChar a = digitChar b \<Longrightarrow> a = b"
proof -
  assume a: "a < 10" and b: "b < 10" and eq: "digitChar a = digitChar b"
  have d: "distinct ''0123456789''" by simp
  have la: "a < length ''0123456789''" using a by simp
  have lb: "b < length ''0123456789''" using b by simp
  from eq show "a = b"
    unfolding digitChar_def using nth_eq_iff_index_eq [OF d la lb] by simp
qed

lemma digitChar_not_minus: "d < 10 \<Longrightarrow> digitChar d \<noteq> CHR ''-''"
proof -
  assume "d < 10"
  then have "digitChar d \<in> set ''0123456789''"
    unfolding digitChar_def by (intro nth_mem) simp
  then show ?thesis by auto
qed

lemma digits_nonempty: "digits n \<noteq> []"
  by (subst digits.simps) simp

lemma hd_digits_not_minus: "hd (digits n) \<noteq> CHR ''-''"
proof (induction n rule: digits.induct)
  case (1 n)
  show ?case
  proof (cases "n < 10")
    case True
    then show ?thesis by (subst digits.simps) (simp add: digitChar_not_minus)
  next
    case False
    with 1 have "hd (digits (n div 10)) \<noteq> CHR ''-''" by simp
    with False show ?thesis
      by (subst digits.simps) (simp add: digits_nonempty)
  qed
qed

lemma digits_inj: "digits n = digits m \<Longrightarrow> n = m"
proof (induction n arbitrary: m rule: digits.induct)
  case (1 n)
  show ?case
  proof (cases "n < 10")
    case n: True
    show ?thesis
    proof (cases "m < 10")
      case True
      from "1.prems" have "[digitChar n] = [digitChar m]"
        using n True by (simp add: digits.simps [of n] digits.simps [of m])
      then show ?thesis using n True digitChar_inj by simp
    next
      case False
      from "1.prems" have "[digitChar n] = digits (m div 10) @ [digitChar (m mod 10)]"
        using n False by (simp add: digits.simps [of n] digits.simps [of m])
      then show ?thesis using digits_nonempty [of "m div 10"] by auto
    qed
  next
    case n: False
    show ?thesis
    proof (cases "m < 10")
      case True
      from "1.prems" have "digits (n div 10) @ [digitChar (n mod 10)] = [digitChar m]"
        using n True by (simp add: digits.simps [of n] digits.simps [of m])
      then show ?thesis using digits_nonempty [of "n div 10"] by auto
    next
      case False
      from "1.prems" have "digits (n div 10) @ [digitChar (n mod 10)]
           = digits (m div 10) @ [digitChar (m mod 10)]"
        using n False by (simp add: digits.simps [of n] digits.simps [of m])
      then have a: "digits (n div 10) = digits (m div 10)"
        and b: "digitChar (n mod 10) = digitChar (m mod 10)" by simp_all
      from a have q: "n div 10 = m div 10" using "1.IH" n by simp
      from b have r: "n mod 10 = m mod 10" by (intro digitChar_inj) simp_all
      from q r show ?thesis by (metis div_mult_mod_eq)
    qed
  qed
qed

lemma toString_inj: "toString i = toString j \<Longrightarrow> i = j"
proof -
  assume eq: "toString i = toString j"
  have neg_pos: False if "a < 0" "\<not> b < 0" "toString a = toString b" for a b :: int
  proof -
    from that have "CHR ''-'' # digits (nat (- a)) = digits (nat b)"
      by (simp add: toString_def)
    then have "hd (digits (nat b)) = CHR ''-''" by (metis list.sel(1))
    then show False using hd_digits_not_minus by simp
  qed
  show "i = j"
  proof (cases "i < 0")
    case i: True
    show ?thesis
    proof (cases "j < 0")
      case True
      with i eq have "digits (nat (- i)) = digits (nat (- j))" by (simp add: toString_def)
      then have "nat (- i) = nat (- j)" by (rule digits_inj)
      with i True show ?thesis by simp
    next
      case False
      with i eq neg_pos show ?thesis by blast
    qed
  next
    case i: False
    show ?thesis
    proof (cases "j < 0")
      case True
      with i eq neg_pos [of j i] show ?thesis by simp
    next
      case False
      with i eq have "digits (nat i) = digits (nat j)" by (simp add: toString_def)
      then have "nat i = nat j" by (rule digits_inj)
      with i False show ?thesis by simp
    qed
  qed
qed

lemma toString_eq_iff: "toString i = toString j \<longleftrightarrow> i = j"
  using toString_inj by blast

lemma trim_empty_iff: "trim c = [] \<longleftrightarrow> (\<forall>ch\<in>set c. isWhiteSpace ch)"
proof
  assume "trim c = []"
  then have all: "\<forall>x\<in>set (dropWhile isWhiteSpace c). isWhiteSpace x"
    by (simp add: trim_def dropWhile_eq_Nil_conv)
  have "dropWhile isWhiteSpace c = []"
  proof (rule ccontr)
    assume ne: "dropWhile isWhiteSpace c \<noteq> []"
    then have "\<not> isWhiteSpace (hd (dropWhile isWhiteSpace c))" by (rule hd_dropWhile)
    moreover from ne have "hd (dropWhile isWhiteSpace c) \<in> set (dropWhile isWhiteSpace c)"
      by simp
    ultimately show False using all by blast
  qed
  then show "\<forall>ch\<in>set c. isWhiteSpace ch" by (simp add: dropWhile_eq_Nil_conv)
next
  assume "\<forall>ch\<in>set c. isWhiteSpace ch"
  then have "dropWhile isWhiteSpace c = []" by (simp only: dropWhile_eq_Nil_conv)
  then show "trim c = []" unfolding trim_def by (simp only: rev.simps dropWhile.simps)
qed

lemma trim_decompose:
  "\<exists>pre post. c = pre @ trim c @ post
      \<and> (\<forall>ch\<in>set pre. isWhiteSpace ch) \<and> (\<forall>ch\<in>set post. isWhiteSpace ch)"
proof -
  define d where "d = dropWhile isWhiteSpace c"
  have c: "c = takeWhile isWhiteSpace c @ d"
    by (simp add: d_def)
  have "d = rev (takeWhile isWhiteSpace (rev d) @ dropWhile isWhiteSpace (rev d))"
    by (simp only: takeWhile_dropWhile_id rev_rev_ident)
  also have "\<dots> = rev (dropWhile isWhiteSpace (rev d)) @ rev (takeWhile isWhiteSpace (rev d))"
    by (simp only: rev_append)
  finally have d: "d = trim c @ rev (takeWhile isWhiteSpace (rev d))"
    by (simp only: trim_def d_def)
  have pre: "\<forall>ch\<in>set (takeWhile isWhiteSpace c). isWhiteSpace ch"
    by (auto dest: set_takeWhileD)
  have post: "\<forall>ch\<in>set (rev (takeWhile isWhiteSpace (rev d))). isWhiteSpace ch"
    by (auto dest: set_takeWhileD)
  from c d have "c = takeWhile isWhiteSpace c @ trim c @ rev (takeWhile isWhiteSpace (rev d))"
    by simp
  with pre post show ?thesis by blast
qed

lemma trim_ends:
  assumes "trim c \<noteq> []"
  shows "\<not> isWhiteSpace (hd (trim c))" and "\<not> isWhiteSpace (last (trim c))"
proof -
  define d where "d = dropWhile isWhiteSpace c"
  define e where "e = dropWhile isWhiteSpace (rev d)"
  have t: "trim c = rev e" by (simp add: trim_def d_def e_def)
  with assms have ene: "e \<noteq> []" by simp
  then have "\<not> isWhiteSpace (hd e)" unfolding e_def by (rule hd_dropWhile)
  then show "\<not> isWhiteSpace (last (trim c))" using ene by (simp add: t last_rev)
  have dne: "d \<noteq> []" using ene by (auto simp: e_def)
  then have hd_d: "\<not> isWhiteSpace (hd d)" unfolding d_def by (rule hd_dropWhile)
  have "\<exists>post. d = rev e @ post"
  proof -
    have "d = rev (takeWhile isWhiteSpace (rev d) @ dropWhile isWhiteSpace (rev d))"
      by (simp only: takeWhile_dropWhile_id rev_rev_ident)
    also have "\<dots> = rev e @ rev (takeWhile isWhiteSpace (rev d))"
      by (simp only: rev_append e_def)
    finally show ?thesis by blast
  qed
  then obtain post where "d = rev e @ post" ..
  then have "hd d = hd (rev e)" using ene by simp
  with hd_d show "\<not> isWhiteSpace (hd (trim c))" by (simp add: t)
qed

section \<open>Properties of the view\<close>

lemma sorted_desc_sortByTimestampDesc:
  "sorted_wrt (\<lambda>a b. timestamp b \<le> timestamp a) (sortByTimestampDesc xs)"
proof -
  have "sorted (map (\<lambda>item. - timestamp item) (sortByTimestampDesc xs))"
    unfolding sortByTimestampDesc_def by (rule sorted_sort_key)
  then show ?thesis
    by (simp add: sorted_map)
qed

lemma mset_sortByTimestampDesc: "mset (sortByTimestampDesc xs) = mset xs"
  by (simp add: sortByTimestampDesc_def)

lemma set_sortByTimestampDesc: "set (sortByTimestampDesc xs) = set xs"
  by (simp add: sortByTimestampDesc_def)

lemma length_sortByTimestampDesc: "length (sortByTimestampDesc xs) = length xs"
  by (simp add: sortByTimestampDesc_def)

lemma sortByTimestampDesc_stable:
  "filter (\<lambda>item. timestamp item = t) (sortByTimestampDesc xs)
     = filter (\<lambda>item. timestamp item = t) xs"
proof -
  have "filter (\<lambda>item. - timestamp item = - t) (sort_key (\<lambda>item. - timestamp item) xs)
          = filter (\<lambda>item. - timestamp item = - t) xs"
    by (rule sort_key_stable)
  then show ?thesis by (simp add: sortByTimestampDesc_def)
qed

lemma sortByTimestampDesc_id:
  assumes "sorted_wrt (\<lambda>a b. timestamp b \<le> timestamp a) xs"
  shows "sortByTimestampDesc xs = xs"
proof -
  from assms have "sorted (map (\<lambda>item. - timestamp item) xs)"
    by (simp add: sorted_map)
  then show ?thesis
    unfolding sortByTimestampDesc_def by (rule sort_key_id_if_sorted)
qed

lemma timestamps_sortByTimestampDesc:
  "map (\<lambda>item. - timestamp item) (sortByTimestampDesc xs)
     = sort (map (\<lambda>item. - timestamp item) xs)"
proof -
  have "sort (map (\<lambda>item. - timestamp item) xs)
          = map (\<lambda>item. - timestamp item) (sortByTimestampDesc xs)"
  proof (rule properties_for_sort)
    show "mset (map (\<lambda>item. - timestamp item) (sortByTimestampDesc xs))
            = mset (map (\<lambda>item. - timestamp item) xs)"
      by (simp add: sortByTimestampDesc_def)
    show "sorted (map (\<lambda>item. - timestamp item) (sortByTimestampDesc xs))"
      unfolding sortByTimestampDesc_def by (rule sorted_sort_key)
  qed
  then show ?thesis by simp
qed

lemma timestamps_sortByTimestampDesc_perm:
  assumes "mset xs = mset ys"
  shows "map timestamp (sortByTimestampDesc xs) = map timestamp (sortByTimestampDesc ys)"
proof -
  have "mset (map (\<lambda>item. - timestamp item) xs) = mset (map (\<lambda>item. - timestamp item) ys)"
    using assms by (metis mset_map)
  then have "sort (map (\<lambda>item. - timestamp item) xs) = sort (map (\<lambda>item. - timestamp item) ys)"
    by (metis properties_for_sort mset_sort sorted_sort)
  then have eq: "map (\<lambda>item. - timestamp item) (sortByTimestampDesc xs)
          = map (\<lambda>item. - timestamp item) (sortByTimestampDesc ys)"
    by (simp add: timestamps_sortByTimestampDesc)
  have "map uminus (map (\<lambda>item. - timestamp item) zs) = map timestamp zs" for zs
    by (simp add: comp_def)
  with eq show ?thesis by metis
qed

lemma getFilteredItems_favorites:
  "currentFilter s = FilterFavorites \<Longrightarrow>
     getFilteredItems s = (sortByTimestampDesc (filter is_favorite (clipboardHistory s)), s)"
  by (simp add: getFilteredItems_def)

lemma getFilteredItems_all:
  "currentFilter s \<noteq> FilterFavorites \<Longrightarrow>
     getFilteredItems s = (sortByTimestampDesc (clipboardHistory s),
                           s\<lparr>clipboardHistory := sortByTimestampDesc (clipboardHistory s)\<rparr>)"
  by (simp add: getFilteredItems_def Let_def)

lemma render_history:
  "clipboardHistory (render s) =
     (if currentFilter s = FilterFavorites then clipboardHistory s
      else sortByTimestampDesc (clipboardHistory s))"
  by (simp add: render_def getFilteredItems_def Let_def)

lemma render_fields:
  "maxHistorySize (render s) = maxHistorySize s" "currentFilter (render s) = currentFilter s"
  by (simp_all add: render_def getFilteredItems_def Let_def)

lemma mset_render: "mset (clipboardHistory (render s)) = mset (clipboardHistory s)"
  by (simp add: render_history mset_sortByTimestampDesc)

subsection \<open>The favourites view\<close>

text \<open>
  C6. With the favourites filter, \<^verbatim>\<open>getFilteredItems\<close> returns exactly the favourited
  entries of the history (each as often as it is stored), ordered by timestamp
  descending. The order of the timestamps shown depends only on which entries are stored,
  not on the order they are stored in: a second history \<open>s'\<close> with the same entries in any
  other order shows the same sequence of timestamps. The history itself is left as it is.
\<close>

theorem favorites_view_sorted_by_timestamp:
  assumes "currentFilter s = FilterFavorites"
    and "currentFilter s' = FilterFavorites"
    and "mset (clipboardHistory s') = mset (clipboardHistory s)"
  shows "mset (fst (getFilteredItems s)) = mset (filter is_favorite (clipboardHistory s))
       \<and> sorted_wrt (\<lambda>a b. timestamp b \<le> timestamp a) (fst (getFilteredItems s))
       \<and> map timestamp (fst (getFilteredItems s')) = map timestamp (fst (getFilteredItems s))
       \<and> snd (getFilteredItems s) = s"
proof -
  have shown: "fst (getFilteredItems s) = sortByTimestampDesc (filter is_favorite (clipboardHistory s))"
    using assms(1) by (simp add: getFilteredItems_def)
  have shown': "fst (getFilteredItems s') = sortByTimestampDesc (filter is_favorite (clipboardHistory s'))"
    using assms(2) by (simp add: getFilteredItems_def)
  have "mset (filter is_favorite (clipboardHistory s')) = mset (filter is_favorite (clipboardHistory s))"
    using assms(3) by (metis mset_filter)
  then have same: "map timestamp (fst (getFilteredItems s')) = map timestamp (fst (getFilteredItems s))"
    unfolding shown shown' by (rule timestamps_sortByTimestampDesc_perm)
  have kept: "snd (getFilteredItems s) = s"
    using assms(1) by (simp add: getFilteredItems_def)
  show ?thesis
    using same kept
    by (simp add: shown mset_sortByTimestampDesc sorted_desc_sortByTimestampDesc)
qed

theorem favorites_view_sorted_by_timestamp_witness:
  "currentFilter (boxOf [entryOld, entryNew, entryMid] FilterFavorites) = FilterFavorites
   \<and> currentFilter (boxOf [entryMid, entryNew, entryOld] FilterFavorites) = FilterFavorites
   \<and> fst (getFilteredItems (boxOf [entryOld, entryNew, entryMid] FilterFavorites))
       = [entryMid, entryOld]
   \<and> map timestamp (fst (getFilteredItems (boxOf [entryMid, entryNew, entryOld] FilterFavorites)))
       = map timestamp (fst (getFilteredItems (boxOf [entryOld, entryNew, entryMid] FilterFavorites)))"
proof -
  have perm: "mset (clipboardHistory (boxOf [entryMid, entryNew, entryOld] FilterFavorites))
      = mset (clipboardHistory (boxOf [entryOld, entryNew, entryMid] FilterFavorites))"
    by (simp add: boxOf_def)
  have f1: "currentFilter (boxOf [entryOld, entryNew, entryMid] FilterFavorites) = FilterFavorites"
    by (simp add: boxOf_def)
  have f2: "currentFilter (boxOf [entryMid, entryNew, entryOld] FilterFavorites) = FilterFavorites"
    by (simp add: boxOf_def)
  have shown: "fst (getFilteredItems (boxOf [entryOld, entryNew, entryMid] FilterFavorites))
       = [entryMid, entryOld]"
    by (simp add: getFilteredItems_def boxOf_def sortByTimestampDesc_def
        entryOld_def entryNew_def entryMid_def)
  show ?thesis
    using favorites_view_sorted_by_timestamp [OF f1 f2 perm] f1 f2 shown by simp
qed

subsection \<open>The full view\<close>

text \<open>
  C1, as the code has it. With the filter \<open>all\<close>, \<^verbatim>\<open>getFilteredItems\<close> returns every stored
  entry, none added and none dropped, favourites not pinned, ordered by timestamp
  descending; entries with the same timestamp keep their stored order. The list shown is
  the stored sequence itself whenever that sequence is already in timestamp-descending
  order.
\<close>

theorem all_view_is_history_by_timestamp:
  assumes "currentFilter s = FilterAll"
  shows "mset (fst (getFilteredItems s)) = mset (clipboardHistory s)
       \<and> sorted_wrt (\<lambda>a b. timestamp b \<le> timestamp a) (fst (getFilteredItems s))
       \<and> filter (\<lambda>item. timestamp item = t) (fst (getFilteredItems s))
           = filter (\<lambda>item. timestamp item = t) (clipboardHistory s)
       \<and> (sorted_wrt (\<lambda>a b. timestamp b \<le> timestamp a) (clipboardHistory s)
            \<longrightarrow> fst (getFilteredItems s) = clipboardHistory s)"
proof -
  have shown: "fst (getFilteredItems s) = sortByTimestampDesc (clipboardHistory s)"
    using assms by (simp add: getFilteredItems_all)
  show ?thesis
    unfolding shown
    by (simp add: mset_sortByTimestampDesc sorted_desc_sortByTimestampDesc
        sortByTimestampDesc_stable sortByTimestampDesc_id)
qed

theorem all_view_is_history_by_timestamp_witness:
  "currentFilter (boxOf [entryMid, entryNew, entryOld] FilterAll) = FilterAll
   \<and> sorted_wrt (\<lambda>a b. timestamp b \<le> timestamp a)
         (clipboardHistory (boxOf [entryMid, entryNew, entryOld] FilterAll))
   \<and> fst (getFilteredItems (boxOf [entryMid, entryNew, entryOld] FilterAll))
       = [entryMid, entryNew, entryOld]"
proof -
  have f: "currentFilter (boxOf [entryMid, entryNew, entryOld] FilterAll) = FilterAll"
    by (simp add: boxOf_def)
  have srt: "sorted_wrt (\<lambda>a b. timestamp b \<le> timestamp a)
         (clipboardHistory (boxOf [entryMid, entryNew, entryOld] FilterAll))"
    by (simp add: boxOf_def entryOld_def entryNew_def entryMid_def)
  have h: "clipboardHistory (boxOf [entryMid, entryNew, entryOld] FilterAll)
       = [entryMid, entryNew, entryOld]"
    by (simp add: boxOf_def)
  show ?thesis
    using all_view_is_history_by_timestamp [OF f, of 0] f srt h by simp
qed

text \<open>
  C1 as stated fails: with the promoted order \<open>[entryOld, entryNew]\<close> stored, the full view
  shows \<open>[entryNew, entryOld]\<close>, which is not the stored sequence; and after the history
  \<open>[entryNew, entryOld]\<close> and the promotion of \<open>entryOld\<close> (id \<open>1\<close>), the full view is
  \<open>[entryNew, entryOld]\<close>, not \<open>[entryOld, entryNew]\<close>.
\<close>

theorem all_view_not_stored_order:
  "fst (getFilteredItems (boxOf [entryOld, entryNew] FilterAll)) = [entryNew, entryOld]
   \<and> fst (getFilteredItems (boxOf [entryOld, entryNew] FilterAll))
       \<noteq> clipboardHistory (boxOf [entryOld, entryNew] FilterAll)
   \<and> fst (getFilteredItems (moveItemToTop ''1'' (boxOf [entryNew, entryOld] FilterAll)))
       = [entryNew, entryOld]
   \<and> fst (getFilteredItems (moveItemToTop ''1'' (boxOf [entryNew, entryOld] FilterAll)))
       \<noteq> [entryOld, entryNew]"
  by (simp add: run_simps)

section \<open>Properties of ingestion\<close>

lemma scanForDuplicate_iff:
  "scanForDuplicate c xs \<longleftrightarrow>
     (\<exists>item\<in>set xs.
        if isBase64Image c \<and> isBase64Image (content item)
        then take 200 c = take 200 (content item)
        else content item = c)"
  by (induction xs) (auto simp: substring0_def)

lemma addToHistory_rejected:
  "c = [] \<or> trim c = [] \<or> scanForDuplicate c (clipboardHistory s) \<Longrightarrow>
     addToHistory c now_id now_ts s = s"
  by (auto simp: addToHistory_def)

lemma addToHistory_accepted:
  assumes "c \<noteq> []" and "trim c \<noteq> []" and "\<not> scanForDuplicate c (clipboardHistory s)"
  shows "addToHistory c now_id now_ts s =
           render (s\<lparr>clipboardHistory :=
                      take (maxHistorySize s) (newItem c now_id now_ts # clipboardHistory s)\<rparr>)"
proof -
  have "(if length (newItem c now_id now_ts # clipboardHistory s) > maxHistorySize s
         then take (maxHistorySize s) (newItem c now_id now_ts # clipboardHistory s)
         else newItem c now_id now_ts # clipboardHistory s)
        = take (maxHistorySize s) (newItem c now_id now_ts # clipboardHistory s)"
    by (simp del: take_Suc_Cons)
  with assms show ?thesis
    by (simp add: addToHistory_def Let_def del: take_Suc_Cons length_Cons)
qed

lemma addToHistory_fields:
  "maxHistorySize (addToHistory c now_id now_ts s) = maxHistorySize s"
  "currentFilter (addToHistory c now_id now_ts s) = currentFilter s"
  by (simp_all add: addToHistory_def Let_def render_fields)

lemma addToHistory_length:
  assumes "length (clipboardHistory s) \<le> maxHistorySize s"
  shows "length (clipboardHistory (addToHistory c now_id now_ts s)) \<le> maxHistorySize s"
proof (cases "c = [] \<or> trim c = [] \<or> scanForDuplicate c (clipboardHistory s)")
  case True
  then show ?thesis using assms by (simp add: addToHistory_rejected)
next
  case False
  then have "addToHistory c now_id now_ts s =
           render (s\<lparr>clipboardHistory :=
                      take (maxHistorySize s) (newItem c now_id now_ts # clipboardHistory s)\<rparr>)"
    by (simp add: addToHistory_accepted)
  then show ?thesis
    by (simp add: render_history length_sortByTimestampDesc del: take_Suc_Cons)
qed

lemma ingestAll_fields:
  "maxHistorySize (ingestAll calls s) = maxHistorySize s"
  "currentFilter (ingestAll calls s) = currentFilter s"
  by (induction calls s rule: ingestAll.induct) (simp_all add: addToHistory_fields)

lemma ingestAll_length:
  "length (clipboardHistory s) \<le> maxHistorySize s \<Longrightarrow>
     length (clipboardHistory (ingestAll calls s)) \<le> maxHistorySize s"
proof (induction calls s rule: ingestAll.induct)
  case (1 s)
  then show ?case by simp
next
  case (2 c now_id now_ts rest s)
  have "length (clipboardHistory (addToHistory c now_id now_ts s))
          \<le> maxHistorySize (addToHistory c now_id now_ts s)"
    using "2.prems" by (simp add: addToHistory_length addToHistory_fields)
  then have "length (clipboardHistory (ingestAll rest (addToHistory c now_id now_ts s)))
          \<le> maxHistorySize (addToHistory c now_id now_ts s)"
    by (rule "2.IH")
  then show ?case by (simp add: addToHistory_fields)
qed

text \<open>
  C2. Starting from a history within the bound, the history is within the bound after
  every run of \<^verbatim>\<open>addToHistory\<close> calls (the bound itself never changes). An accepted call
  stores the first \<open>maxHistorySize\<close> entries of the new entry followed by the old history,
  so what is dropped is the tail beyond the bound; \<^verbatim>\<open>render\<close> then leaves these entries in
  place (favourites filter) or arranges them by timestamp (filter \<open>all\<close>).
\<close>

theorem history_length_bounded:
  assumes "length (clipboardHistory s) \<le> maxHistorySize s"
  shows "length (clipboardHistory (ingestAll calls s)) \<le> maxHistorySize s
       \<and> maxHistorySize (ingestAll calls s) = maxHistorySize s
       \<and> (c \<noteq> [] \<and> trim c \<noteq> [] \<and> \<not> scanForDuplicate c (clipboardHistory s) \<longrightarrow>
            clipboardHistory (addToHistory c now_id now_ts s) =
              (if currentFilter s = FilterFavorites
               then take (maxHistorySize s) (newItem c now_id now_ts # clipboardHistory s)
               else sortByTimestampDesc
                      (take (maxHistorySize s) (newItem c now_id now_ts # clipboardHistory s))))"
  using assms
  by (simp add: ingestAll_length ingestAll_fields addToHistory_accepted render_history
      del: take_Suc_Cons)

theorem history_length_bounded_witness:
  "length (clipboardHistory (boxOf [entryNew, entryOld] FilterAll\<lparr>maxHistorySize := 2\<rparr>))
     \<le> maxHistorySize (boxOf [entryNew, entryOld] FilterAll\<lparr>maxHistorySize := 2\<rparr>)
   \<and> ''c'' \<noteq> [] \<and> trim ''c'' \<noteq> []
   \<and> \<not> scanForDuplicate ''c''
         (clipboardHistory (boxOf [entryNew, entryOld] FilterAll\<lparr>maxHistorySize := 2\<rparr>))
   \<and> clipboardHistory
         (addToHistory ''c'' 3 3 (boxOf [entryNew, entryOld] FilterAll\<lparr>maxHistorySize := 2\<rparr>))
       = [newItem ''c'' 3 3, entryNew]
   \<and> length (clipboardHistory
         (ingestAll [(''c'', 3, 3), (''d'', 4, 4)]
            (boxOf [entryNew, entryOld] FilterAll\<lparr>maxHistorySize := 2\<rparr>))) \<le> 2"
proof -
  let ?s = "boxOf [entryNew, entryOld] FilterAll\<lparr>maxHistorySize := 2\<rparr>"
  have bound: "length (clipboardHistory ?s) \<le> maxHistorySize ?s"
    by (simp add: boxOf_def)
  have t: "trim ''c'' \<noteq> []"
    by (simp add: trim_def isWhiteSpace_def)
  have nodup: "\<not> scanForDuplicate ''c'' (clipboardHistory ?s)"
    by (simp add: boxOf_def entryNew_def entryOld_def isBase64Image_def startsWith_def)
  have flt: "currentFilter ?s \<noteq> FilterFavorites" "maxHistorySize ?s = 2"
    "clipboardHistory ?s = [entryNew, entryOld]"
    by (simp_all add: boxOf_def)
  have srt: "sortByTimestampDesc [newItem ''c'' 3 3, entryNew] = [newItem ''c'' 3 3, entryNew]"
    by (simp add: sortByTimestampDesc_def newItem_def entryNew_def)
  show ?thesis
    using history_length_bounded [OF bound, of "[(''c'', 3, 3), (''d'', 4, 4)]" "''c''" 3 3]
      bound t nodup flt srt
    by simp
qed

text \<open>
  C8. \<^verbatim>\<open>addToHistory\<close> has no \<^verbatim>\<open>throw\<close> and calls nothing that throws on a string, so it is a
  total function of the content, the clock and the state. Whenever it declines, that is
  for the empty string, for a string of white space only, and for a content that the
  duplicate scan matches against some stored entry (two images by their first 200
  characters, otherwise the stored content against the content received), it returns
  before touching anything: the state that comes back is the state that went in.
\<close>

theorem ingest_rejection_leaves_state:
  assumes "c = [] \<or> (\<forall>ch\<in>set c. isWhiteSpace ch)
         \<or> (\<exists>item\<in>set (clipboardHistory s).
               if isBase64Image c \<and> isBase64Image (content item)
               then take 200 c = take 200 (content item)
               else content item = c)"
  shows "addToHistory c now_id now_ts s = s"
proof -
  from assms have "c = [] \<or> trim c = [] \<or> scanForDuplicate c (clipboardHistory s)"
    by (simp only: trim_empty_iff scanForDuplicate_iff)
  then show ?thesis by (rule addToHistory_rejected)
qed

theorem ingest_rejection_leaves_state_witness:
  "isWhiteSpace CHR '' ''
   \<and> addToHistory '' '' 3 3 (boxOf [entryNew, entryOld] FilterFavorites)
       = boxOf [entryNew, entryOld] FilterFavorites
   \<and> (\<exists>item\<in>set (clipboardHistory (boxOf [entryOld, entryNew] FilterAll)).
         if isBase64Image ''new'' \<and> isBase64Image (content item)
         then take 200 ''new'' = take 200 (content item)
         else content item = ''new'')
   \<and> addToHistory ''new'' 3 3 (boxOf [entryOld, entryNew] FilterAll)
       = boxOf [entryOld, entryNew] FilterAll"
proof -
  have ws: "\<forall>ch\<in>set '' ''. isWhiteSpace ch"
    by (simp add: isWhiteSpace_def)
  have dup: "\<exists>item\<in>set (clipboardHistory (boxOf [entryOld, entryNew] FilterAll)).
         if isBase64Image ''new'' \<and> isBase64Image (content item)
         then take 200 ''new'' = take 200 (content item)
         else content item = ''new''"
    by (simp add: boxOf_def entryNew_def entryOld_def isBase64Image_def startsWith_def)
  have r1: "addToHistory '' '' 3 3 (boxOf [entryNew, entryOld] FilterFavorites)
       = boxOf [entryNew, entryOld] FilterFavorites"
    using ws by (intro ingest_rejection_leaves_state) blast
  have r2: "addToHistory ''new'' 3 3 (boxOf [entryOld, entryNew] FilterAll)
       = boxOf [entryOld, entryNew] FilterAll"
    using dup by (intro ingest_rejection_leaves_state) blast
  have sp: "isWhiteSpace CHR '' ''"
    by (simp add: isWhiteSpace_def)
  from sp dup r1 r2 show ?thesis by blast
qed

text \<open>
  C10. An accepted call with room for at least one entry stores the entry built from the
  content \<open>c\<close>. Its \<open>content\<close> field is \<open>trim c\<close>: \<open>c\<close> without a leading and a trailing run
  of white space, beginning and ending with a character that is not white space. Its
  \<open>image_path\<close> is \<open>c\<close> itself, untrimmed, when the entry is an image, and absent when it is
  text. Nothing else enters the history.
\<close>

theorem accepted_entry_content_is_trimmed:
  assumes "c \<noteq> []" and "trim c \<noteq> []"
    and "\<not> scanForDuplicate c (clipboardHistory s)"
    and "0 < maxHistorySize s"
  shows "newItem c now_id now_ts \<in> set (clipboardHistory (addToHistory c now_id now_ts s))
       \<and> set (clipboardHistory (addToHistory c now_id now_ts s))
           \<subseteq> insert (newItem c now_id now_ts) (set (clipboardHistory s))
       \<and> content (newItem c now_id now_ts) = trim c
       \<and> (\<exists>pre post. c = pre @ content (newItem c now_id now_ts) @ post
              \<and> (\<forall>ch\<in>set pre. isWhiteSpace ch) \<and> (\<forall>ch\<in>set post. isWhiteSpace ch))
       \<and> \<not> isWhiteSpace (hd (content (newItem c now_id now_ts)))
       \<and> \<not> isWhiteSpace (last (content (newItem c now_id now_ts)))
       \<and> image_path (newItem c now_id now_ts)
           = (if item_type (newItem c now_id now_ts) = Image then Some c else None)"
proof -
  let ?new = "newItem c now_id now_ts"
  let ?kept = "take (maxHistorySize s) (?new # clipboardHistory s)"
  have stored: "set (clipboardHistory (addToHistory c now_id now_ts s)) = set ?kept"
    using assms(1-3)
    by (simp add: addToHistory_accepted render_history set_sortByTimestampDesc
        del: take_Suc_Cons)
  from assms(4) obtain m where m: "maxHistorySize s = Suc m"
    by (cases "maxHistorySize s") simp_all
  have mem: "?new \<in> set ?kept" by (simp add: m)
  have sub: "set ?kept \<subseteq> insert ?new (set (clipboardHistory s))"
    using set_take_subset [of "maxHistorySize s" "?new # clipboardHistory s"] by simp
  have cont: "content ?new = trim c" by (simp add: newItem_def)
  have path: "image_path ?new = (if item_type ?new = Image then Some c else None)"
    by (simp add: newItem_def)
  show ?thesis
    unfolding stored using mem sub path trim_decompose [of c] trim_ends [OF assms(2)]
    by (simp only: cont) blast
qed

theorem accepted_entry_content_is_trimmed_witness:
  "''data:image/png;base64,QUJD '' \<noteq> [] \<and> trim ''data:image/png;base64,QUJD '' \<noteq> []
   \<and> \<not> scanForDuplicate ''data:image/png;base64,QUJD ''
         (clipboardHistory (boxOf [entryNew, entryOld] FilterAll))
   \<and> 0 < maxHistorySize (boxOf [entryNew, entryOld] FilterAll)
   \<and> newItem ''data:image/png;base64,QUJD '' 3 3
       \<in> set (clipboardHistory
            (addToHistory ''data:image/png;base64,QUJD '' 3 3 (boxOf [entryNew, entryOld] FilterAll)))
   \<and> content (newItem ''data:image/png;base64,QUJD '' 3 3) = ''data:image/png;base64,QUJD''
   \<and> image_path (newItem ''data:image/png;base64,QUJD '' 3 3) = Some ''data:image/png;base64,QUJD ''"
proof -
  let ?c = "''data:image/png;base64,QUJD ''"
  let ?s = "boxOf [entryNew, entryOld] FilterAll"
  have ne: "?c \<noteq> []" by simp
  have t: "trim ?c = ''data:image/png;base64,QUJD''"
    by (simp add: trim_def isWhiteSpace_def)
  then have tne: "trim ?c \<noteq> []" by simp
  have img: "isBase64Image ?c"
    by (simp add: isBase64Image_def startsWith_def)
  have nodup: "\<not> scanForDuplicate ?c (clipboardHistory ?s)"
    by (simp add: boxOf_def entryNew_def entryOld_def isBase64Image_def startsWith_def)
  have room: "0 < maxHistorySize ?s" by (simp add: boxOf_def)
  have kind: "item_type (newItem ?c 3 3) = Image"
    using img by (simp add: newItem_def)
  show ?thesis
    using accepted_entry_content_is_trimmed [OF ne tne nodup room, of 3 3] ne t nodup room kind
    by simp
qed

section \<open>Entry ids\<close>

lemma item_id_newItem: "item_id (newItem c now_id now_ts) = toString now_id"
  by (simp add: newItem_def)

lemma ids_addToHistory:
  "item_id ` set (clipboardHistory (addToHistory c now_id now_ts s))
     \<subseteq> insert (toString now_id) (item_id ` set (clipboardHistory s))"
proof (cases "c = [] \<or> trim c = [] \<or> scanForDuplicate c (clipboardHistory s)")
  case True
  then show ?thesis by (auto simp: addToHistory_rejected)
next
  case False
  then have "set (clipboardHistory (addToHistory c now_id now_ts s))
      = set (take (maxHistorySize s) (newItem c now_id now_ts # clipboardHistory s))"
    by (simp add: addToHistory_accepted render_history set_sortByTimestampDesc
        del: take_Suc_Cons)
  also have "\<dots> \<subseteq> insert (newItem c now_id now_ts) (set (clipboardHistory s))"
    using set_take_subset [of "maxHistorySize s" "newItem c now_id now_ts # clipboardHistory s"]
    by simp
  finally show ?thesis by (auto simp: item_id_newItem)
qed

lemma distinct_ids_sortByTimestampDesc:
  "distinct (map item_id (sortByTimestampDesc xs)) \<longleftrightarrow> distinct (map item_id xs)"
proof -
  have "mset (map item_id (sortByTimestampDesc xs)) = mset (map item_id xs)"
    by (simp add: mset_sortByTimestampDesc)
  then show ?thesis by (rule mset_eq_imp_distinct_iff)
qed

lemma distinct_ids_addToHistory:
  assumes "distinct (map item_id (clipboardHistory s))"
    and "toString now_id \<notin> item_id ` set (clipboardHistory s)"
  shows "distinct (map item_id (clipboardHistory (addToHistory c now_id now_ts s)))"
proof (cases "c = [] \<or> trim c = [] \<or> scanForDuplicate c (clipboardHistory s)")
  case True
  then show ?thesis using assms(1) by (simp add: addToHistory_rejected)
next
  case False
  let ?kept = "take (maxHistorySize s) (newItem c now_id now_ts # clipboardHistory s)"
  have "distinct (map item_id (newItem c now_id now_ts # clipboardHistory s))"
    using assms by (simp add: item_id_newItem)
  then have "distinct (take (maxHistorySize s)
                 (map item_id (newItem c now_id now_ts # clipboardHistory s)))"
    by (rule distinct_take)
  then have kept: "distinct (map item_id ?kept)"
    by (simp only: take_map)
  from False have "clipboardHistory (addToHistory c now_id now_ts s)
      = (if currentFilter s = FilterFavorites then ?kept else sortByTimestampDesc ?kept)"
    by (simp add: addToHistory_accepted render_history del: take_Suc_Cons)
  with kept show ?thesis
    by (simp add: distinct_ids_sortByTimestampDesc del: take_Suc_Cons)
qed

lemma distinct_ids_ingestAll:
  "distinct (map item_id (clipboardHistory s)) \<Longrightarrow>
   distinct (map (\<lambda>call. fst (snd call)) calls) \<Longrightarrow>
   (\<forall>call\<in>set calls. toString (fst (snd call)) \<notin> item_id ` set (clipboardHistory s)) \<Longrightarrow>
   distinct (map item_id (clipboardHistory (ingestAll calls s)))"
proof (induction calls s rule: ingestAll.induct)
  case (1 s)
  then show ?case by simp
next
  case (2 c now_id now_ts rest s)
  let ?s' = "addToHistory c now_id now_ts s"
  have fresh: "toString now_id \<notin> item_id ` set (clipboardHistory s)"
    using "2.prems"(3) by simp
  have d: "distinct (map item_id (clipboardHistory ?s'))"
    using "2.prems"(1) fresh by (rule distinct_ids_addToHistory)
  have dr: "distinct (map (\<lambda>call. fst (snd call)) rest)"
    using "2.prems"(2) by simp
  have "\<forall>call\<in>set rest. toString (fst (snd call)) \<notin> item_id ` set (clipboardHistory ?s')"
  proof
    fix call assume mem: "call \<in> set rest"
    then have "fst (snd call) \<noteq> now_id"
      using "2.prems"(2) by auto
    then have "toString (fst (snd call)) \<noteq> toString now_id"
      by (simp add: toString_eq_iff)
    moreover have "toString (fst (snd call)) \<notin> item_id ` set (clipboardHistory s)"
      using "2.prems"(3) mem by simp
    ultimately show "toString (fst (snd call)) \<notin> item_id ` set (clipboardHistory ?s')"
      using ids_addToHistory [of c now_id now_ts s] by blast
  qed
  with d dr have "distinct (map item_id (clipboardHistory (ingestAll rest ?s')))"
    by (rule "2.IH")
  then show ?case by simp
qed

text \<open>
  C5, as the code has it. The id of an entry is the decimal rendering of the clock
  reading taken when it is created, so two entries have the same id exactly when they
  were created at the same clock reading. Hence a history whose ids are pairwise
  different keeps pairwise different ids through every run of \<^verbatim>\<open>addToHistory\<close> calls whose
  clock readings are pairwise different and render to ids not yet in the history.
\<close>

theorem ids_distinct_for_distinct_clock_readings:
  assumes "distinct (map item_id (clipboardHistory s))"
    and "distinct (map (\<lambda>call. fst (snd call)) calls)"
    and "\<forall>call\<in>set calls. toString (fst (snd call)) \<notin> item_id ` set (clipboardHistory s)"
  shows "distinct (map item_id (clipboardHistory (ingestAll calls s)))
       \<and> (item_id (newItem c1 t1 u1) = item_id (newItem c2 t2 u2) \<longleftrightarrow> t1 = t2)"
  using distinct_ids_ingestAll [OF assms]
  by (simp add: item_id_newItem toString_eq_iff)

theorem ids_distinct_for_distinct_clock_readings_witness:
  "distinct (map item_id (clipboardHistory initialBox))
   \<and> distinct (map (\<lambda>call. fst (snd call)) [(''a'', 5::int, 5::int), (''b'', 6, 6)])
   \<and> toString 5 \<notin> item_id ` set (clipboardHistory initialBox)
   \<and> toString 6 \<notin> item_id ` set (clipboardHistory initialBox)
   \<and> map item_id (clipboardHistory (ingestAll [(''a'', 5, 5), (''b'', 6, 6)] initialBox))
       = [''6'', ''5'']
   \<and> distinct (map item_id
         (clipboardHistory (ingestAll [(''a'', 5, 5), (''b'', 6, 6)] initialBox)))"
proof -
  have a1: "distinct (map item_id (clipboardHistory initialBox))"
    by (simp add: initialBox_def)
  have a2: "distinct (map (\<lambda>call. fst (snd call)) [(''a'', 5::int, 5::int), (''b'', 6, 6)])"
    by simp
  have a3: "\<forall>call\<in>set [(''a'', 5::int, 5::int), (''b'', 6, 6)].
         toString (fst (snd call)) \<notin> item_id ` set (clipboardHistory initialBox)"
    by (simp add: initialBox_def)
  have run: "map item_id (clipboardHistory (ingestAll [(''a'', 5, 5), (''b'', 6, 6)] initialBox))
       = [''6'', ''5'']"
    by (simp add: run_simps)
  show ?thesis
    using ids_distinct_for_distinct_clock_readings [OF a1 a2 a3] a1 a2 a3 run by simp
qed

text \<open>
  C5 as stated fails: two different contents accepted at the same clock reading give two
  stored entries with the same id.
\<close>

theorem ids_collide_within_one_millisecond:
  "map item_id (clipboardHistory (ingestAll [(''a'', 5, 5), (''b'', 5, 5)] initialBox))
     = [''5'', ''5'']
   \<and> map content (clipboardHistory (ingestAll [(''a'', 5, 5), (''b'', 5, 5)] initialBox))
     = [''b'', ''a'']
   \<and> \<not> distinct (map item_id
          (clipboardHistory (ingestAll [(''a'', 5, 5), (''b'', 5, 5)] initialBox)))"
  by (simp add: run_simps)


section \<open>What the promotion does before the history is rendered\<close>

lemma findIndex_range: "findIndex P xs = - 1 \<or> (0 \<le> findIndex P xs \<and> findIndex P xs < int (length xs))"
  by (induction xs) (auto simp: Let_def)

lemma findIndex_found:
  "0 \<le> findIndex P xs \<Longrightarrow> P (xs ! nat (findIndex P xs))"
proof (induction xs)
  case Nil
  then show ?case by simp
next
  case (Cons x xs)
  show ?case
  proof (cases "P x")
    case True
    then show ?thesis by simp
  next
    case False
    with Cons.prems have r: "0 \<le> findIndex P xs"
      by (simp add: Let_def split: if_splits)
    then have "P (xs ! nat (findIndex P xs))" by (rule Cons.IH)
    moreover have "nat (findIndex P xs + 1) = Suc (nat (findIndex P xs))"
      using r by simp
    ultimately show ?thesis using False r by (simp add: Let_def)
  qed
qed

lemma findIndex_absent: "findIndex P xs = - 1 \<longleftrightarrow> (\<forall>x\<in>set xs. \<not> P x)"
proof (induction xs)
  case Nil
  then show ?case by simp
next
  case (Cons x xs)
  have "findIndex P xs = - 1 \<or> 0 \<le> findIndex P xs"
    using findIndex_range [of P xs] by blast
  with Cons show ?case by (auto simp: Let_def)
qed

lemma findIndex_front: "findIndex P xs = 0 \<longleftrightarrow> (xs \<noteq> [] \<and> P (hd xs))"
proof (cases xs)
  case Nil
  then show ?thesis by simp
next
  case (Cons x rest)
  have "findIndex P rest = - 1 \<or> 0 \<le> findIndex P rest"
    using findIndex_range [of P rest] by blast
  with Cons show ?thesis by (auto simp: Let_def)
qed

lemma mset_promoted:
  assumes "i < length xs"
  shows "mset (xs ! i # splice1 i xs) = mset xs"
proof -
  have "xs = take i xs @ xs ! i # drop (Suc i) xs"
    using assms by (rule id_take_nth_drop)
  then have "mset xs = mset (take i xs @ xs ! i # drop (Suc i) xs)" by simp
  then show ?thesis by (simp add: splice1_def)
qed

text \<open>
  An id that is empty, absent or already in front leaves the state as it is, under either
  filter.
\<close>

lemma moveItemToTop_noop:
  assumes "ident = [] \<or> (\<forall>item\<in>set (clipboardHistory s). item_id item \<noteq> ident)
         \<or> (clipboardHistory s \<noteq> [] \<and> item_id (hd (clipboardHistory s)) = ident)"
  shows "moveItemToTop ident s = s"
proof -
  let ?i = "findIndex (\<lambda>item. item_id item = ident) (clipboardHistory s)"
  from assms have "ident = [] \<or> ?i = - 1 \<or> ?i = 0"
    by (auto simp only: findIndex_absent findIndex_front)
  then show ?thesis by (auto simp: moveItemToTop_def Let_def)
qed

text \<open>
  With the favourites filter (and in the older revisions, whose \<^verbatim>\<open>render\<close> does not sort) an
  entry found at a position \<open>i > 0\<close> ends in front, the others keeping their order.
\<close>

lemma moveItemToTop_favorites_filter:
  assumes "currentFilter s = FilterFavorites" and "ident \<noteq> []"
    and "findIndex (\<lambda>item. item_id item = ident) (clipboardHistory s) = int i" and "0 < i"
  shows "clipboardHistory (moveItemToTop ident s)
           = clipboardHistory s ! i # take i (clipboardHistory s) @ drop (Suc i) (clipboardHistory s)"
    and "item_id (clipboardHistory s ! i) = ident"
proof -
  show "clipboardHistory (moveItemToTop ident s)
           = clipboardHistory s ! i # take i (clipboardHistory s) @ drop (Suc i) (clipboardHistory s)"
    using assms by (simp add: moveItemToTop_def Let_def render_history splice1_def)
  have "0 \<le> findIndex (\<lambda>item. item_id item = ident) (clipboardHistory s)"
    using assms(3) by simp
  then have "item_id (clipboardHistory s ! nat (findIndex (\<lambda>item. item_id item = ident)
      (clipboardHistory s))) = ident"
    by (rule findIndex_found)
  then show "item_id (clipboardHistory s ! i) = ident"
    using assms(3) by simp
qed

text \<open>
  Under either filter the promotion neither adds nor drops an entry and changes no field
  of any entry, the timestamp included.
\<close>

lemma mset_moveItemToTop:
  "mset (clipboardHistory (moveItemToTop ident s)) = mset (clipboardHistory s)"
proof -
  let ?i = "findIndex (\<lambda>item. item_id item = ident) (clipboardHistory s)"
  show ?thesis
  proof (cases "ident \<noteq> [] \<and> 0 < ?i")
    case False
    then show ?thesis by (auto simp: moveItemToTop_def Let_def)
  next
    case True
    then have "nat ?i < length (clipboardHistory s)"
      using findIndex_range [of "\<lambda>item. item_id item = ident" "clipboardHistory s"] by auto
    then have "mset (clipboardHistory s ! nat ?i # splice1 (nat ?i) (clipboardHistory s))
        = mset (clipboardHistory s)"
      by (rule mset_promoted)
    with True show ?thesis
      by (simp add: moveItemToTop_def Let_def mset_render)
  qed
qed

text \<open>
  With the filter \<open>all\<close> a history that is in timestamp-descending order is in that order
  again after every promotion.
\<close>

lemma moveItemToTop_all_filter_sorted:
  assumes "currentFilter s \<noteq> FilterFavorites"
    and "sorted_wrt (\<lambda>a b. timestamp b \<le> timestamp a) (clipboardHistory s)"
  shows "sorted_wrt (\<lambda>a b. timestamp b \<le> timestamp a) (clipboardHistory (moveItemToTop ident s))"
  using assms
  by (auto simp: moveItemToTop_def Let_def render_history sorted_desc_sortByTimestampDesc)

section \<open>Runs that show the duplicate scan and the promotion\<close>

text \<open>
  C3 at the input \<open>''a ''\<close> with \<open>''a''\<close> stored. The stored content equals \<open>trim ''a ''\<close>, and
  the call is accepted all the same: the scan compares the stored (trimmed) content with
  the content as received, and a second entry with content \<open>''a''\<close> is stored.
\<close>

theorem padded_duplicate_of_stored_text_is_accepted:
  "map content (clipboardHistory (addToHistory ''a'' 1 1 initialBox)) = [''a'']
   \<and> trim ''a '' = ''a''
   \<and> \<not> isBase64Image ''a ''
   \<and> map content
         (clipboardHistory (addToHistory ''a '' 2 2 (addToHistory ''a'' 1 1 initialBox)))
       = [''a'', ''a'']"
  by (simp add: run_simps)

text \<open>
  C4 at the input \<open>''a ''\<close> on the empty history: the same content received twice in a row is
  stored twice.
\<close>

theorem repeated_padded_content_is_stored_twice:
  "map content
     (clipboardHistory (ingestAll [(''a '', 1, 1), (''a '', 2, 2)] initialBox))
     = [''a'', ''a'']
   \<and> length (clipboardHistory (ingestAll [(''a '', 1, 1), (''a '', 2, 2)] initialBox)) = 2"
  by (simp add: run_simps)

text \<open>
  C7 with the filter \<open>all\<close>: \<open>old\<close> is captured at time 1, \<open>new\<close> at time 2, and the older
  entry (id \<open>1\<close>, at position 1) is promoted. The entry is spliced out and put in front,
  and the \<^verbatim>\<open>render\<close> that ends \<^verbatim>\<open>moveItemToTop\<close> sorts the history by timestamp again: the
  history ends as it began, with the promoted entry still at position 1.
\<close>

theorem promotion_is_undone_by_render:
  "map item_id (clipboardHistory (ingestAll [(''old'', 1, 1), (''new'', 2, 2)] initialBox))
     = [''2'', ''1'']
   \<and> clipboardHistory
       (moveItemToTop ''1'' (ingestAll [(''old'', 1, 1), (''new'', 2, 2)] initialBox))
     = clipboardHistory (ingestAll [(''old'', 1, 1), (''new'', 2, 2)] initialBox)
   \<and> map item_id (clipboardHistory
       (moveItemToTop ''1'' (ingestAll [(''old'', 1, 1), (''new'', 2, 2)] initialBox)))
     = [''2'', ''1'']"
  by (simp add: run_simps)

section \<open>Properties of the shortcut methods\<close>

lemma unregister_registered:
  "registered (snd (unregister env key h)) \<subseteq> registered h"
  "\<not> unregisterFails env key \<Longrightarrow> key \<notin> registered (snd (unregister env key h))"
  "console (snd (unregister env key h)) = console h"
  by (auto simp: unregister_def)

lemma unregisterGlobalShortcut_registered:
  "fst (unregisterGlobalShortcut env key h) = Inr ()"
  "registered (snd (unregisterGlobalShortcut env key h)) \<subseteq> registered h"
  "\<not> unregisterFails env key \<Longrightarrow> key \<notin> registered (snd (unregisterGlobalShortcut env key h))"
  by (auto simp: unregisterGlobalShortcut_def unregister_def)

lemma registerGlobalShortcut_refused:
  assumes "registerFails env key"
  shows "fst (registerGlobalShortcut env key h) = Inr ()"
    and "registered (snd (registerGlobalShortcut env key h)) \<subseteq> registered h"
    and "console (snd (registerGlobalShortcut env key h)) = RegisterFailed key # console h"
    and "shortcutKey (snd (registerGlobalShortcut env key h)) = shortcutKey h"
    and "storedShortcut (snd (registerGlobalShortcut env key h)) = storedShortcut h"
  using assms
  by (auto simp: registerGlobalShortcut_def register_def unregister_def Let_def)

lemma registerGlobalShortcut_returns: "fst (registerGlobalShortcut env key h) = Inr ()"
  by (auto simp: registerGlobalShortcut_def register_def unregister_def Let_def)

text \<open>The state in which \<^verbatim>\<open>saveShortcutKey\<close> reaches the registration of the new key.\<close>

lemma saveShortcutKey_unfold:
  "saveShortcutKey env key h =
     (Inr (),
      (snd (registerGlobalShortcut env (replaceFirst key ''Meta'' ''Cmd'')
             ((if shortcutKey h \<noteq> [] \<and> shortcutKey h \<noteq> key
               then snd (unregisterGlobalShortcut env (shortcutKey h) h) else h)
              \<lparr>storedShortcut := Some (replaceFirst key ''Meta'' ''Cmd'')\<rparr>)))
      \<lparr>shortcutKey := replaceFirst key ''Meta'' ''Cmd''\<rparr>)"
proof -
  let ?h1 = "if shortcutKey h \<noteq> [] \<and> shortcutKey h \<noteq> key
             then snd (unregisterGlobalShortcut env (shortcutKey h) h) else h"
  have h1: "(if shortcutKey h \<noteq> [] \<and> shortcutKey h \<noteq> key
             then (case unregisterGlobalShortcut env (shortcutKey h) h of
                     (Inr u, h') \<Rightarrow> h'
                   | (Inl e, h') \<Rightarrow> h'\<lparr>console := UnregisterFailed (shortcutKey h) # console h'\<rparr>)
             else h) = ?h1"
    using unregisterGlobalShortcut_registered(1) [of env "shortcutKey h" h]
    by (cases "unregisterGlobalShortcut env (shortcutKey h) h") auto
  show ?thesis
    unfolding saveShortcutKey_def h1 Let_def
    using registerGlobalShortcut_returns
      [of env "replaceFirst key ''Meta'' ''Cmd''"
          "?h1\<lparr>storedShortcut := Some (replaceFirst key ''Meta'' ''Cmd'')\<rparr>"]
    by (cases "registerGlobalShortcut env (replaceFirst key ''Meta'' ''Cmd'')
          (?h1\<lparr>storedShortcut := Some (replaceFirst key ''Meta'' ''Cmd'')\<rparr>)") auto
qed

text \<open>
  C9, as the code has it. When the plugin refuses to register the new key,
  \<^verbatim>\<open>saveShortcutKey\<close> still returns normally (nothing is thrown to the caller), the call
  registers nothing (every key registered afterwards was registered before), an old key
  whose unregistration went through stays unregistered, so that no key is registered when
  the old key was the only one, and the refusal is written to the console.
\<close>

theorem failed_registration_leaves_nothing_registered:
  assumes "registerFails env (replaceFirst key ''Meta'' ''Cmd'')"
  shows "fst (saveShortcutKey env key h) = Inr ()
       \<and> registered (snd (saveShortcutKey env key h)) \<subseteq> registered h
       \<and> (shortcutKey h \<noteq> [] \<and> shortcutKey h \<noteq> key \<and> \<not> unregisterFails env (shortcutKey h)
            \<longrightarrow> shortcutKey h \<notin> registered (snd (saveShortcutKey env key h)))
       \<and> (shortcutKey h \<noteq> [] \<and> shortcutKey h \<noteq> key \<and> \<not> unregisterFails env (shortcutKey h)
            \<and> registered h \<subseteq> {shortcutKey h}
            \<longrightarrow> registered (snd (saveShortcutKey env key h)) = {})
       \<and> RegisterFailed (replaceFirst key ''Meta'' ''Cmd'')
           \<in> set (console (snd (saveShortcutKey env key h)))"
proof -
  let ?fixed = "replaceFirst key ''Meta'' ''Cmd''"
  let ?h1 = "if shortcutKey h \<noteq> [] \<and> shortcutKey h \<noteq> key
             then snd (unregisterGlobalShortcut env (shortcutKey h) h) else h"
  let ?h2 = "?h1\<lparr>storedShortcut := Some ?fixed\<rparr>"
  let ?h3 = "snd (registerGlobalShortcut env ?fixed ?h2)"
  have res: "saveShortcutKey env key h = (Inr (), ?h3\<lparr>shortcutKey := ?fixed\<rparr>)"
    by (rule saveShortcutKey_unfold)
  have r1: "registered ?h1 \<subseteq> registered h"
    using unregisterGlobalShortcut_registered(2) [of env "shortcutKey h" h] by simp
  have r3: "registered ?h3 \<subseteq> registered ?h2"
    using assms by (rule registerGlobalShortcut_refused(2))
  have sub: "registered ?h3 \<subseteq> registered h"
    using r1 r3 by simp
  have old: "shortcutKey h \<notin> registered ?h3"
    if "shortcutKey h \<noteq> []" "shortcutKey h \<noteq> key" "\<not> unregisterFails env (shortcutKey h)"
  proof -
    from that have "shortcutKey h \<notin> registered ?h1"
      using unregisterGlobalShortcut_registered(3) [of env "shortcutKey h" h] by simp
    with r3 show ?thesis by auto
  qed
  have logged: "RegisterFailed ?fixed \<in> set (console ?h3)"
    using registerGlobalShortcut_refused(3) [OF assms, of ?h2] by simp
  have none: "registered ?h3 = {}"
    if "shortcutKey h \<noteq> []" "shortcutKey h \<noteq> key" "\<not> unregisterFails env (shortcutKey h)"
      "registered h \<subseteq> {shortcutKey h}"
    using old [OF that(1-3)] sub that(4) by blast
  show ?thesis
    unfolding res using sub old logged none by simp
qed

theorem failed_registration_leaves_nothing_registered_witness:
  "registerFails platformRefusing (replaceFirst ''Ctrl+Alt+c'' ''Meta'' ''Cmd'')
   \<and> shortcutKey boundToV \<noteq> [] \<and> shortcutKey boundToV \<noteq> ''Ctrl+Alt+c''
   \<and> \<not> unregisterFails platformRefusing (shortcutKey boundToV)
   \<and> registered boundToV \<subseteq> {shortcutKey boundToV}
   \<and> fst (saveShortcutKey platformRefusing ''Ctrl+Alt+c'' boundToV) = Inr ()
   \<and> registered (snd (saveShortcutKey platformRefusing ''Ctrl+Alt+c'' boundToV)) = {}
   \<and> RegisterFailed ''Ctrl+Alt+c''
       \<in> set (console (snd (saveShortcutKey platformRefusing ''Ctrl+Alt+c'' boundToV)))"
proof -
  have fixed: "replaceFirst ''Ctrl+Alt+c'' ''Meta'' ''Cmd'' = ''Ctrl+Alt+c''"
    by (simp add: startsWith_def)
  have refused: "registerFails platformRefusing (replaceFirst ''Ctrl+Alt+c'' ''Meta'' ''Cmd'')"
    unfolding fixed by (simp add: platformRefusing_def)
  have pre: "shortcutKey boundToV \<noteq> []" "shortcutKey boundToV \<noteq> ''Ctrl+Alt+c''"
    "\<not> unregisterFails platformRefusing (shortcutKey boundToV)"
    "registered boundToV \<subseteq> {shortcutKey boundToV}"
    by (simp_all add: boundToV_def platformRefusing_def)
  show ?thesis
    using failed_registration_leaves_nothing_registered [OF refused, of boundToV] refused pre
    by (simp add: startsWith_def)
qed

text \<open>
  C9 as stated fails. Bound to \<open>Ctrl+Alt+v\<close>, with the registration of \<open>Ctrl+Alt+c\<close>
  refused: the call returns what it returns when the registration succeeds, and the
  program's own record of the binding, \<^verbatim>\<open>shortcutKey\<close> and the stored slot, names the new
  key as if it were bound.
\<close>

theorem failed_rebind_is_not_reported:
  "registerFails platformRefusing (replaceFirst ''Ctrl+Alt+c'' ''Meta'' ''Cmd'')
   \<and> fst (saveShortcutKey platformRefusing ''Ctrl+Alt+c'' boundToV)
       = fst (saveShortcutKey platformOk ''Ctrl+Alt+c'' boundToV)
   \<and> shortcutKey (snd (saveShortcutKey platformRefusing ''Ctrl+Alt+c'' boundToV))
       = ''Ctrl+Alt+c''
   \<and> storedShortcut (snd (saveShortcutKey platformRefusing ''Ctrl+Alt+c'' boundToV))
       = Some ''Ctrl+Alt+c''
   \<and> shortcutKey (snd (saveShortcutKey platformRefusing ''Ctrl+Alt+c'' boundToV))
       = shortcutKey (snd (saveShortcutKey platformOk ''Ctrl+Alt+c'' boundToV))"
  by (simp add: saveShortcutKey_def registerGlobalShortcut_def unregisterGlobalShortcut_def
      register_def unregister_def Let_def platformRefusing_def platformOk_def boundToV_def
      startsWith_def)

end
